theory Spec2Isabelle
  imports Main "HOL-Library.Word"
begin

unbundle bit_operations_syntax

section \<open>Inventory paths: \<open>splitPathToList\<close>\<close>

text \<open>
  Go strings are byte sequences, so a path is a \<open>string\<close> (a list of 8-bit characters).
  The path separator is \<open>/\<close>; a slash that belongs to a name is written with a
  backslash in front of it.
\<close>

definition slash :: char where
  "slash = CHR ''/''"

definition backslash :: char where
  "backslash = CHR 0x5C"

text \<open>
  \<open>strings.Split(s, "/")\<close>: the pieces of \<open>s\<close> between the separators. The result of
  the library function is never empty: the empty string gives one empty piece.
\<close>

fun Split :: "string \<Rightarrow> string list" where
  "Split [] = [[]]"
| "Split (c # cs) =
     (if c = slash then [] # Split cs
      else (case Split cs of [] \<Rightarrow> [[c]] | x # xs \<Rightarrow> (c # x) # xs))"

text \<open>
  \<open>strings.SplitN(path, "\\/", 2)\<close>: the text before the first escaped slash and, when
  there is one, the text after it. The second component is \<open>None\<close> exactly when the
  slice the library returns has length 1.
\<close>

fun SplitN :: "string \<Rightarrow> string \<times> string option" where
  "SplitN (c # d # cs) =
     (if c = backslash \<and> d = slash then ([], Some cs)
      else (case SplitN (d # cs) of (a, r) \<Rightarrow> (c # a, r)))"
| "SplitN cs = (cs, None)"

text \<open>
  \<open>splitPathToList\<close> (util.go). \<open>None\<close> stands for the run-time panic of an index out
  of range in \<open>pathList[lPathList-1]\<close>, \<open>morePathList[0]\<close> or \<open>morePathList[1:]\<close>.
\<close>

function splitPathToList :: "string \<Rightarrow> string list option" where
  "splitPathToList path =
     (case SplitN path of
        (s0, None) \<Rightarrow> Some (Split s0)
      | (s0, Some s1) \<Rightarrow>
          (case splitPathToList s1 of
             None \<Rightarrow> None
           | Some morePathList \<Rightarrow>
               (let pathList = Split s0 in
                if pathList = [] \<or> morePathList = [] then None
                else Some (butlast pathList
                           @ [last pathList @ [slash] @ hd morePathList]
                           @ tl morePathList))))"
  by pat_completeness auto

lemma SplitN_shorter: "SplitN path = (s0, Some s1) \<Longrightarrow> length s1 < length path"
proof (induction path arbitrary: s0 rule: SplitN.induct)
  case (1 c d cs)
  then show ?case
    by (auto split: if_splits prod.splits)
qed simp_all

termination splitPathToList
  by (relation "measure length") (auto dest: SplitN_shorter [OF sym])

declare splitPathToList.simps [simp del]

text \<open>
  The inverse used to state the round trip: every slash inside a segment is written
  back in its escaped form (\<open>strings.ReplaceAll(seg, "/", "\\/")\<close>), and the segments
  are joined with the separator (\<open>strings.Join(segs, "/")\<close>).
\<close>

fun escapeSlash :: "string \<Rightarrow> string" where
  "escapeSlash [] = []"
| "escapeSlash (c # cs) =
     (if c = slash then backslash # slash # escapeSlash cs else c # escapeSlash cs)"

fun Join :: "string list \<Rightarrow> string" where
  "Join [] = []"
| "Join [s] = s"
| "Join (s # t # ss) = s @ [slash] @ Join (t # ss)"

definition rejoinPath :: "string list \<Rightarrow> string" where
  "rejoinPath segs = Join (map escapeSlash segs)"

section \<open>Disk reconciliation: \<open>resizeAndDeleteVols\<close>\<close>

text \<open>
  Errors are values. \<open>Error msg\<close> is an error with a fixed message (also an error
  that the vSphere client returns), \<open>Errorf prefix err\<close> is
  \<open>fmt.Errorf(prefix + "%v", err)\<close>, \<open>ErrorWithAnswer ans text err validOptions\<close> is
  the error \<open>answerQuestion\<close> builds from these four values, \<open>ErrorNoValidIP ipMap\<close>
  is \<open>fmt.Errorf("no valid ip assigned: %v", ipMap)\<close>, and \<open>Panic\<close> is a Go run-time
  panic (a failed type assertion or an index out of range).
\<close>

datatype error =
  Error string
| Errorf string error
| ErrorWithAnswer string string error string
| ErrorVMPowerStateChanging
| ErrorNoValidIP "(string \<times> string list) list"
| ErrorObjectNotFound string string
| Panic

text \<open>
  Modelled from the spec: the struct \<open>Disk\<close>, whose declaration is outside the source
  file; the specification describes it as a disk descriptor with a size and the name of
  the resulting backing file. These are the two fields that the reconciliation reads.
  \<open>Size\<close> is taken as a 64-bit signed integer, on which the product
  \<open>Size * 1024 * 1024\<close> wraps around.
\<close>

record Disk =
  Size :: "64 word"
  DiskFile :: string

text \<open>
  A virtual disk of the template. \<open>Backing\<close> is the file name of a file backing;
  \<open>None\<close> is a backing that is not a file backing, on which the type assertion
  \<open>backing.(types.BaseVirtualDeviceFileBackingInfo)\<close> panics.
\<close>

record VirtualDisk =
  Backing :: "string option"
  CapacityInKB :: "64 word"

datatype VirtualDevice = VirtualDiskDevice VirtualDisk | OtherDevice

datatype VirtualDeviceConfigSpecOperation =
  VirtualDeviceConfigSpecOperationAdd
| VirtualDeviceConfigSpecOperationRemove
| VirtualDeviceConfigSpecOperationEdit

record VirtualDeviceConfigSpec =
  Operation :: VirtualDeviceConfigSpecOperation
  Device :: VirtualDisk

text \<open>\<open>findByVirtualDeviceFileName\<close>: the first requested disk with this file name.\<close>

fun findByVirtualDeviceFileName :: "Disk list \<Rightarrow> string \<Rightarrow> Disk option" where
  "findByVirtualDeviceFileName [] name = None"
| "findByVirtualDeviceFileName (disk # disks) name =
     (if DiskFile disk = name then Some disk else findByVirtualDeviceFileName disks name)"

text \<open>
  The body of the loop of \<open>resizeAndDeleteVols\<close> for one device, given the list
  \<open>deviceSpecs\<close> built so far. An entry of the list is a value of the interface type
  \<open>types.BaseVirtualDeviceConfigSpec\<close>: \<open>None\<close> is the nil interface, the value of
  \<open>dvconfig\<close> when no branch assigns it. The \<open>append\<close> is outside the branches, so
  it runs for every virtual disk that does not end the loop with an error.
\<close>

definition resizeAndDeleteVol ::
  "Disk list \<Rightarrow> VirtualDeviceConfigSpec option list \<Rightarrow> VirtualDevice
     \<Rightarrow> error + VirtualDeviceConfigSpec option list" where
  "resizeAndDeleteVol disks deviceSpecs device =
     (case device of
        OtherDevice \<Rightarrow> Inr deviceSpecs
      | VirtualDiskDevice editdisk \<Rightarrow>
          (case Backing editdisk of
             None \<Rightarrow> Inl Panic
           | Some fileName \<Rightarrow>
               (case findByVirtualDeviceFileName disks fileName of
                  None \<Rightarrow>
                    Inr (deviceSpecs @
                      [Some \<lparr>Operation = VirtualDeviceConfigSpecOperationRemove,
                             Device = editdisk\<rparr>])
                | Some disk \<Rightarrow>
                    (let capacityInKB = Size disk * 1024 * 1024 in
                     if sint (CapacityInKB editdisk) > sint capacityInKB
                     then Inl (Error ''error : Shrinking Virtual Disks is not supported'')
                     else if sint (CapacityInKB editdisk) < sint capacityInKB
                     then Inr (deviceSpecs @
                       [Some \<lparr>Operation = VirtualDeviceConfigSpecOperationEdit,
                              Device = editdisk\<lparr>CapacityInKB := capacityInKB\<rparr>\<rparr>])
                     else Inr (deviceSpecs @ [None])))))"

fun resizeAndDeleteVols_loop ::
  "Disk list \<Rightarrow> VirtualDeviceConfigSpec option list \<Rightarrow> VirtualDevice list
     \<Rightarrow> error + VirtualDeviceConfigSpec option list" where
  "resizeAndDeleteVols_loop disks deviceSpecs [] = Inr deviceSpecs"
| "resizeAndDeleteVols_loop disks deviceSpecs (device # devices) =
     (case resizeAndDeleteVol disks deviceSpecs device of
        Inl e \<Rightarrow> Inl e
      | Inr deviceSpecs' \<Rightarrow> resizeAndDeleteVols_loop disks deviceSpecs' devices)"

definition resizeAndDeleteVols ::
  "VirtualDevice list \<Rightarrow> Disk list \<Rightarrow> error + VirtualDeviceConfigSpec option list" where
  "resizeAndDeleteVols devices disks = resizeAndDeleteVols_loop disks [] devices"

section \<open>Placement: \<open>validateHost\<close> and \<open>filterHosts\<close>\<close>

record ManagedObjectReference =
  Type :: string
  Value :: string

text \<open>The properties of a host system that \<open>validateHost\<close> retrieves.\<close>

record HostSystem =
  Network :: "ManagedObjectReference list"
  Datastore :: "ManagedObjectReference list"

text \<open>
  The property collector of the vSphere client, as far as placement uses it: each field
  is the outcome of \<open>vm.collector.RetrieveOne\<close> for one kind of managed object and
  property list.
\<close>

record collector =
  retrieveHostSystem :: "ManagedObjectReference \<Rightarrow> error + HostSystem"
  retrieveNetworkName :: "ManagedObjectReference \<Rightarrow> error + string"
  retrievePortgroupName :: "ManagedObjectReference \<Rightarrow> error + string"
  retrieveDatastoreName :: "ManagedObjectReference \<Rightarrow> error + string"

record RequestedNetwork =
  Name :: string

text \<open>
  Modelled from the spec: the struct \<open>VM\<close>, the VM handle, whose declaration is outside
  the source file. These are the fields that the operations below read: the requested
  networks, the resolved datastore, the question-response rules and the flag that skips
  the wait for an IP address. \<open>QuestionResponses\<close> is a Go map from a regular expression
  to an answer: \<open>answerQuestion\<close> ranges over it with a string key, and its comment
  calls it a map.
\<close>

record VM =
  Networks :: "RequestedNetwork list"
  datastore :: string
  QuestionResponses :: "string \<rightharpoonup> string"
  SkipIPWait :: bool

definition getNetworkName :: "collector \<Rightarrow> ManagedObjectReference \<Rightarrow> error + string" where
  "getNetworkName c network =
     (if Type network = ''Network'' then retrieveNetworkName c network
      else if Type network = ''DistributedVirtualPortgroup'' then retrievePortgroupName c network
      else Inl (Error (''Could not retrieve the network name for: '' @ Value network)))"

text \<open>
  The first loop of \<open>validateHost\<close>: the set of the names of the host's networks
  (the keys of the Go map \<open>hostNetworks\<close>).
\<close>

fun hostNetworkNames ::
  "collector \<Rightarrow> string set \<Rightarrow> ManagedObjectReference list \<Rightarrow> error + string set" where
  "hostNetworkNames c hostNetworks [] = Inr hostNetworks"
| "hostNetworkNames c hostNetworks (nw # nws) =
     (case getNetworkName c nw of
        Inl err \<Rightarrow> Inl err
      | Inr name \<Rightarrow>
          if name = [] then Inl (Error (''Network name empty for: '' @ Value nw))
          else hostNetworkNames c (insert name hostNetworks) nws)"

text \<open>The second loop: \<open>nwValid\<close> stays true until a requested network is missing.\<close>

fun networksValid :: "string set \<Rightarrow> RequestedNetwork list \<Rightarrow> bool" where
  "networksValid hostNetworks [] = True"
| "networksValid hostNetworks (v # vs) =
     (if Name v \<notin> hostNetworks then False else networksValid hostNetworks vs)"

text \<open>The third loop: \<open>dsValid\<close> becomes true at the first datastore with the name.\<close>

fun datastoreValid ::
  "collector \<Rightarrow> string \<Rightarrow> ManagedObjectReference list \<Rightarrow> error + bool" where
  "datastoreValid c dsName [] = Inr False"
| "datastoreValid c dsName (ds # dss) =
     (case retrieveDatastoreName c ds of
        Inl err \<Rightarrow> Inl err
      | Inr name \<Rightarrow> if name = dsName then Inr True else datastoreValid c dsName dss)"

definition validateHost :: "collector \<Rightarrow> VM \<Rightarrow> ManagedObjectReference \<Rightarrow> error + bool" where
  "validateHost c vm hsMor =
     (case retrieveHostSystem c hsMor of
        Inl err \<Rightarrow> Inl err
      | Inr hsMo \<Rightarrow>
          (case hostNetworkNames c {} (Network hsMo) of
             Inl err \<Rightarrow> Inl err
           | Inr hostNetworks \<Rightarrow>
               (let nwValid = networksValid hostNetworks (Networks vm) in
                if datastore vm = [] then Inr nwValid
                else (case datastoreValid c (datastore vm) (Datastore hsMo) of
                        Inl err \<Rightarrow> Inl err
                      | Inr dsValid \<Rightarrow> Inr (nwValid \<and> dsValid)))))"

fun filterHosts_loop ::
  "collector \<Rightarrow> VM \<Rightarrow> ManagedObjectReference list \<Rightarrow> ManagedObjectReference list
     \<Rightarrow> error + ManagedObjectReference list" where
  "filterHosts_loop c vm filteredHosts [] = Inr filteredHosts"
| "filterHosts_loop c vm filteredHosts (host # hosts) =
     (case validateHost c vm host of
        Inl err \<Rightarrow> Inl err
      | Inr valid \<Rightarrow>
          filterHosts_loop c vm (if valid then filteredHosts @ [host] else filteredHosts) hosts)"

definition filterHosts ::
  "collector \<Rightarrow> VM \<Rightarrow> ManagedObjectReference list \<Rightarrow> error + ManagedObjectReference list" where
  "filterHosts c vm hosts = filterHosts_loop c vm [] hosts"

text \<open>
  The choice of a host in \<open>getVMLocation\<close> for a cluster without a host name:
  \<open>n\<close> is the number that \<open>util.Random(0, len(filteredHosts)-1)\<close> returns. An index
  outside the slice panics.
\<close>

definition selectClusterHost ::
  "collector \<Rightarrow> VM \<Rightarrow> ManagedObjectReference list \<Rightarrow> nat \<Rightarrow> error + ManagedObjectReference" where
  "selectClusterHost c vm hosts n =
     (case filterHosts c vm hosts of
        Inl err \<Rightarrow> Inl err
      | Inr filteredHosts \<Rightarrow>
          if length filteredHosts \<le> 0 then Inl (Error ''No suitable hosts found in the cluster'')
          else if n < length filteredHosts then Inr (filteredHosts ! n)
          else Inl Panic)"

text \<open>
  What the placement rule asks of a host, in the words of the specification: every
  requested network name is the name of one of the host's networks and, when a
  datastore has been chosen, its name is the name of one of the host's datastores.
\<close>

definition hostMeetsRequest :: "collector \<Rightarrow> VM \<Rightarrow> ManagedObjectReference \<Rightarrow> bool" where
  "hostMeetsRequest c vm hsMor =
     (case retrieveHostSystem c hsMor of
        Inl err \<Rightarrow> False
      | Inr hsMo \<Rightarrow>
          list_all (\<lambda>v. list_ex (\<lambda>nw. getNetworkName c nw = Inr (Name v)) (Network hsMo))
            (Networks vm)
          \<and> (datastore vm = [] \<or>
               list_ex (\<lambda>ds. retrieveDatastoreName c ds = Inr (datastore vm)) (Datastore hsMo)))"

text \<open>A cluster of two hosts; the second one lacks the network \<open>Storage\<close>.\<close>

definition example_collector :: collector where
  "example_collector =
     \<lparr>retrieveHostSystem = (\<lambda>m.
          if Value m = ''host-1'' then
            Inr \<lparr>Network = [\<lparr>Type = ''Network'', Value = ''network-1''\<rparr>,
                            \<lparr>Type = ''DistributedVirtualPortgroup'', Value = ''dvportgroup-2''\<rparr>],
                 Datastore = [\<lparr>Type = ''Datastore'', Value = ''datastore-1''\<rparr>]\<rparr>
          else if Value m = ''host-2'' then
            Inr \<lparr>Network = [\<lparr>Type = ''Network'', Value = ''network-1''\<rparr>],
                 Datastore = [\<lparr>Type = ''Datastore'', Value = ''datastore-1''\<rparr>]\<rparr>
          else Inl (Error ''ManagedObjectNotFound'')),
      retrieveNetworkName = (\<lambda>m.
          if Value m = ''network-1'' then Inr ''VM Network''
          else Inl (Error ''ManagedObjectNotFound'')),
      retrievePortgroupName = (\<lambda>m.
          if Value m = ''dvportgroup-2'' then Inr ''Storage''
          else Inl (Error ''ManagedObjectNotFound'')),
      retrieveDatastoreName = (\<lambda>m.
          if Value m = ''datastore-1'' then Inr ''ds1''
          else Inl (Error ''ManagedObjectNotFound''))\<rparr>"

definition example_vm :: VM where
  "example_vm =
     \<lparr>Networks = [\<lparr>Name = ''VM Network''\<rparr>, \<lparr>Name = ''Storage''\<rparr>],
      datastore = ''ds1'',
      QuestionResponses = Map.empty,
      SkipIPWait = False\<rparr>"

definition example_host1 :: ManagedObjectReference where
  "example_host1 = \<lparr>Type = ''HostSystem'', Value = ''host-1''\<rparr>"

definition example_host2 :: ManagedObjectReference where
  "example_host2 = \<lparr>Type = ''HostSystem'', Value = ''host-2''\<rparr>"

section \<open>Inventory search: \<open>searchTree\<close>\<close>

text \<open>
  The property collector as \<open>searchTree\<close> uses it: the children of a folder, the name
  of a folder, the name of a virtual machine (retrieved with its other properties).
  \<open>isObjectDeleted\<close> is the helper of the package that recognises the fault of a
  deleted object, and \<open>QueryUnescape\<close> is \<open>url.QueryUnescape\<close>.
\<close>

record inventory =
  retrieveChildEntity :: "ManagedObjectReference \<Rightarrow> error + ManagedObjectReference list"
  retrieveFolderName :: "ManagedObjectReference \<Rightarrow> error + string"
  retrieveVirtualMachineName :: "ManagedObjectReference \<Rightarrow> error + string"
  isObjectDeleted :: "error \<Rightarrow> bool"
  QueryUnescape :: "string \<Rightarrow> error + string"

text \<open>
  What a search ends with: the virtual machine found (its reference stands for the
  properties retrieved from it), an error, the run-time panic of an index outside
  \<open>pathList\<close>, or the end of the fuel that bounds the outer loop of the model.
\<close>

datatype search_result =
  Found ManagedObjectReference
| Failed error
| IndexOutOfRange
| OutOfFuel

text \<open>
  The loop over the children of one folder. It ends the search, or goes through all the
  children and leaves the index \<open>iPathList\<close> and the folder \<open>mor\<close> to go on with. The
  \<open>break\<close> after a folder is matched leaves the \<open>switch\<close> only, so the loop goes on
  with the children that follow.
\<close>

datatype children_result =
  Done search_result
| Continue nat "ManagedObjectReference option"

fun searchTree_children ::
  "inventory \<Rightarrow> string list \<Rightarrow> nat \<Rightarrow> ManagedObjectReference option
     \<Rightarrow> ManagedObjectReference list \<Rightarrow> children_result" where
  "searchTree_children coll pathList iPathList mor [] = Continue iPathList mor"
| "searchTree_children coll pathList iPathList mor (child # children) =
     (if Type child = ''Folder'' then
        if int iPathList = int (length pathList) - 1
        then searchTree_children coll pathList iPathList mor children
        else
          (case retrieveFolderName coll child of
             Inl err \<Rightarrow>
               if isObjectDeleted coll err
               then searchTree_children coll pathList iPathList mor children
               else Done (Failed err)
           | Inr name \<Rightarrow>
               (case QueryUnescape coll name of
                  Inl err \<Rightarrow> Done (Failed err)
                | Inr childName \<Rightarrow>
                    if \<not> iPathList < length pathList then Done IndexOutOfRange
                    else if childName = pathList ! iPathList
                    then searchTree_children coll pathList (iPathList + 1) (Some child) children
                    else searchTree_children coll pathList iPathList mor children))
      else if Type child = ''VirtualMachine'' then
        if int iPathList \<noteq> int (length pathList) - 1
        then searchTree_children coll pathList iPathList mor children
        else
          (case retrieveVirtualMachineName coll child of
             Inl err \<Rightarrow>
               if isObjectDeleted coll err
               then searchTree_children coll pathList iPathList mor children
               else Done (Failed err)
           | Inr name \<Rightarrow>
               (case QueryUnescape coll name of
                  Inl err \<Rightarrow> Done (Failed err)
                | Inr vmName \<Rightarrow>
                    if \<not> iPathList < length pathList then Done IndexOutOfRange
                    else if vmName = pathList ! iPathList then Done (Found child)
                    else searchTree_children coll pathList iPathList mor children))
      else searchTree_children coll pathList iPathList mor children)"

text \<open>
  The outer loop \<open>for mor != nil\<close>, with fuel: every round that goes on has moved
  \<open>iPathList\<close> forward, so the length of the path bounds the number of rounds.
\<close>

fun searchTree_loop ::
  "nat \<Rightarrow> inventory \<Rightarrow> string list \<Rightarrow> string \<Rightarrow> nat \<Rightarrow> ManagedObjectReference option
     \<Rightarrow> search_result" where
  "searchTree_loop fuel coll pathList name iPathList None =
     Failed (ErrorObjectNotFound ''could not find the vm'' name)"
| "searchTree_loop 0 coll pathList name iPathList (Some mor) = OutOfFuel"
| "searchTree_loop (Suc fuel) coll pathList name iPathList (Some mor) =
     (case retrieveChildEntity coll mor of
        Inl err \<Rightarrow> Failed err
      | Inr ChildEntity \<Rightarrow>
          (case searchTree_children coll pathList iPathList None ChildEntity of
             Done result \<Rightarrow> result
           | Continue iPathList' None \<Rightarrow>
               Failed (ErrorObjectNotFound ''could not find the vm'' name)
           | Continue iPathList' (Some ref) \<Rightarrow>
               searchTree_loop fuel coll pathList name iPathList' (Some ref)))"

definition searchTree ::
  "inventory \<Rightarrow> ManagedObjectReference option \<Rightarrow> string \<Rightarrow> search_result" where
  "searchTree coll mor name =
     (case splitPathToList name of
        None \<Rightarrow> IndexOutOfRange
      | Some pathList \<Rightarrow> searchTree_loop (length pathList) coll pathList name 0 mor)"

section \<open>Question responder: \<open>answerQuestion\<close> and \<open>resolveAnswerAndOptions\<close>\<close>













section \<open>Lifecycle: heartbeat wait, recent tasks, \<open>start\<close> and the wait for an IP\<close>

subsection \<open>\<open>waitForGuestStatus\<close>\<close>

text \<open>
  The constants of the heartbeat block. \<open>iota\<close> counts the lines of the block, and the
  name of the property takes the first one, so the masks start at \<open>1 << 1\<close>. The mask
  is a Go \<open>int\<close>, 64 bits wide.
\<close>

definition GUEST_HEART_BEAT_STATUS :: string where
  "GUEST_HEART_BEAT_STATUS = ''guestHeartbeatStatus''"

definition GREEN_HEART_BEAT :: "64 word" where
  "GREEN_HEART_BEAT = push_bit 1 1"

definition YELLOW_HEART_BEAT :: "64 word" where
  "YELLOW_HEART_BEAT = push_bit 2 1"

definition GRAY_HEART_BEAT :: "64 word" where
  "GRAY_HEART_BEAT = push_bit 3 1"

definition RED_HEART_BEAT :: "64 word" where
  "RED_HEART_BEAT = push_bit 4 1"

text \<open>\<open>types.ManagedEntityStatus\<close> is a string type with four named values.\<close>

definition ManagedEntityStatusGray :: string where
  "ManagedEntityStatusGray = ''gray''"

definition ManagedEntityStatusGreen :: string where
  "ManagedEntityStatusGreen = ''green''"

definition ManagedEntityStatusYellow :: string where
  "ManagedEntityStatusYellow = ''yellow''"

definition ManagedEntityStatusRed :: string where
  "ManagedEntityStatusRed = ''red''"

text \<open>
  The value of a property change has any type: nil, a \<open>ManagedEntityStatus\<close>, or a
  value of another type, on which the assertion \<open>c.Val.(types.ManagedEntityStatus)\<close>
  panics.
\<close>

datatype AnyType = NilValue | ManagedEntityStatusValue string | OtherValue

record PropertyChange =
  Name' :: string
  Val :: AnyType

text \<open>
  The function that \<open>waitForGuestStatus\<close> gives to \<open>property.Wait\<close>: whether a set
  of property changes holds a heartbeat status that the mask \<open>status\<close> accepts.
\<close>

fun waitForGuestStatus_func :: "64 word \<Rightarrow> PropertyChange list \<Rightarrow> error + bool" where
  "waitForGuestStatus_func status [] = Inr False"
| "waitForGuestStatus_func status (c # pc) =
     (if Name' c \<noteq> GUEST_HEART_BEAT_STATUS then waitForGuestStatus_func status pc
      else (case Val c of
              NilValue \<Rightarrow> waitForGuestStatus_func status pc
            | OtherValue \<Rightarrow> Inl Panic
            | ManagedEntityStatusValue ps \<Rightarrow>
                if status AND GREEN_HEART_BEAT \<noteq> 0 \<and> ps = ManagedEntityStatusGreen then Inr True
                else if status AND GRAY_HEART_BEAT \<noteq> 0 \<and> ps = ManagedEntityStatusGray then Inr True
                else if status AND YELLOW_HEART_BEAT \<noteq> 0 \<and> ps = ManagedEntityStatusYellow then Inr True
                else if status AND RED_HEART_BEAT \<noteq> 0 \<and> ps = ManagedEntityStatusRed then Inr True
                else waitForGuestStatus_func status pc))"

text \<open>
  \<open>property.Wait\<close> of the vSphere client library: it reports the current value of the
  property and then every change of it, calls the function on each report and returns
  nil as soon as the function returns true. What the collector delivers is a list of
  events: a report, or a failure of the wait (the deadline of the context, a fault of
  the connection). The result is the error, if any, and the number of events consumed;
  \<open>None\<close> means that the wait has not returned after all the events of the list.
\<close>

datatype update = Update "PropertyChange list" | WaitFailure error

fun Wait ::
  "(PropertyChange list \<Rightarrow> error + bool) \<Rightarrow> update list \<Rightarrow> (error option \<times> nat) option" where
  "Wait f [] = None"
| "Wait f (WaitFailure err # updates) = Some (Some err, 1)"
| "Wait f (Update pc # updates) =
     (case f pc of
        Inl err \<Rightarrow> Some (Some err, 1)
      | Inr done \<Rightarrow>
          if done then Some (None, 1)
          else (case Wait f updates of
                  None \<Rightarrow> None
                | Some (err, n) \<Rightarrow> Some (err, Suc n)))"

definition waitForGuestStatus :: "64 word \<Rightarrow> update list \<Rightarrow> (error option \<times> nat) option" where
  "waitForGuestStatus status updates = Wait (waitForGuestStatus_func status) updates"

text \<open>
  A status is in the mask when the bit of its colour is set, in the words of the
  specification.
\<close>

definition statusInMask :: "64 word \<Rightarrow> string \<Rightarrow> bool" where
  "statusInMask status ps \<longleftrightarrow>
     ps = ManagedEntityStatusGreen \<and> status AND GREEN_HEART_BEAT \<noteq> 0
     \<or> ps = ManagedEntityStatusYellow \<and> status AND YELLOW_HEART_BEAT \<noteq> 0
     \<or> ps = ManagedEntityStatusGray \<and> status AND GRAY_HEART_BEAT \<noteq> 0
     \<or> ps = ManagedEntityStatusRed \<and> status AND RED_HEART_BEAT \<noteq> 0"

subsection \<open>\<open>isTaskInProgress\<close>\<close>

text \<open>\<open>types.TaskInfoState\<close> is a string type: queued, running, success, error.\<close>

definition TaskInfoStateQueued :: string where
  "TaskInfoStateQueued = ''queued''"

definition TaskInfoStateRunning :: string where
  "TaskInfoStateRunning = ''running''"

text \<open>
  The argument \<open>retrieveTaskInfo\<close> is \<open>vm.collector.RetrieveOne\<close> on the property
  \<open>info\<close> of a task, giving the state of the task or an error; a task that cannot be
  retrieved is passed over.
\<close>

fun isTaskInProgress ::
  "(ManagedObjectReference \<Rightarrow> error + string) \<Rightarrow> ManagedObjectReference list \<Rightarrow> bool" where
  "isTaskInProgress retrieveTaskInfo [] = True"
| "isTaskInProgress retrieveTaskInfo (task # RecentTask) =
     (case retrieveTaskInfo task of
        Inl err \<Rightarrow> isTaskInProgress retrieveTaskInfo RecentTask
      | Inr state \<Rightarrow>
          if state = TaskInfoStateQueued \<or> state = TaskInfoStateRunning then False
          else isTaskInProgress retrieveTaskInfo RecentTask)"

subsection \<open>\<open>start\<close>\<close>

record VirtualMachine =
  GuestState :: string

text \<open>
  The vSphere client, as far as \<open>start\<close> uses it: the outcome of each call that
  \<open>start\<close> can make (\<open>findVM\<close>, \<open>vmo.PowerOn\<close>, \<open>poweronTask.WaitForResult\<close> with the
  fault of the task information, \<open>waitForIP\<close>). \<open>start\<close> returns its error together
  with the calls it has made, in their order.
\<close>

record lifecycle_client =
  findVM_result :: "error + VirtualMachine"
  PowerOn_result :: "error option"
  WaitForResult_result :: "error + error option"
  waitForIP_result :: "error option"

datatype call = CallFindVM | CallPowerOn | CallWaitForResult | CallWaitForIP

definition start :: "lifecycle_client \<Rightarrow> VM \<Rightarrow> error option \<times> call list" where
  "start client vm =
     (case findVM_result client of
        Inl err \<Rightarrow> (Some err, [CallFindVM])
      | Inr vmMo \<Rightarrow>
          (let state = GuestState vmMo in
           if state = ''shuttingdown'' \<or> state = ''resetting''
           then (Some ErrorVMPowerStateChanging, [CallFindVM])
           else
             (case PowerOn_result client of
                Some err \<Rightarrow>
                  (Some (Errorf ''error creating a poweron task on the vm: '' err),
                   [CallFindVM, CallPowerOn])
              | None \<Rightarrow>
                  (case WaitForResult_result client of
                     Inl err \<Rightarrow>
                       (Some (Errorf ''error waiting for poweron task: '' err),
                        [CallFindVM, CallPowerOn, CallWaitForResult])
                   | Inr tInfoError \<Rightarrow>
                       (case tInfoError of
                          Some fault \<Rightarrow>
                            (Some (Error ''poweron task returned an error: <nil>''),
                             [CallFindVM, CallPowerOn, CallWaitForResult])
                        | None \<Rightarrow>
                            if \<not> SkipIPWait vm then
                              (case waitForIP_result client of
                                 Some err \<Rightarrow>
                                   (Some err,
                                    [CallFindVM, CallPowerOn, CallWaitForResult, CallWaitForIP])
                               | None \<Rightarrow>
                                   (None,
                                    [CallFindVM, CallPowerOn, CallWaitForResult, CallWaitForIP]))
                            else (None, [CallFindVM, CallPowerOn, CallWaitForResult]))))))"

subsection \<open>\<open>waitForIP\<close>\<close>







section \<open>Examples\<close>









text \<open>Two reports of the heartbeat status, and a client on which \<open>start\<close> succeeds.\<close>

definition example_green :: PropertyChange where
  "example_green = \<lparr>Name' = ''guestHeartbeatStatus'', Val = ManagedEntityStatusValue ''green''\<rparr>"

definition example_gray :: PropertyChange where
  "example_gray = \<lparr>Name' = ''guestHeartbeatStatus'', Val = ManagedEntityStatusValue ''gray''\<rparr>"

definition example_start_client :: lifecycle_client where
  "example_start_client =
     \<lparr>findVM_result = Inr \<lparr>GuestState = ''notRunning''\<rparr>,
      PowerOn_result = None,
      WaitForResult_result = Inr None,
      waitForIP_result = None\<rparr>"

section \<open>Properties of the path splitter\<close>

lemma Split_nonempty: "Split s \<noteq> []"
  by (induction s) (auto split: list.splits)

lemma Split_no_slash: "x \<in> set (Split s) \<Longrightarrow> slash \<notin> set x"
  by (induction s arbitrary: x) (auto split: list.splits if_splits)

lemma Join_Cons: "ss \<noteq> [] \<Longrightarrow> Join (s # ss) = s @ [slash] @ Join ss"
  by (cases ss) simp_all

lemma Join_prefix: "Join ((p @ x) # r) = p @ Join (x # r)"
  by (cases r) simp_all

lemma Join_Split: "Join (Split s) = s"
proof (induction s)
  case Nil
  show ?case by simp
next
  case (Cons c cs)
  show ?case
  proof (cases "c = slash")
    case True
    with Cons show ?thesis by (simp add: Join_Cons Split_nonempty)
  next
    case False
    obtain x xs where sp: "Split cs = x # xs"
      using Split_nonempty [of cs] by (cases "Split cs") auto
    have "Join ((c # x) # xs) = c # Join (x # xs)"
      using Join_prefix [of "[c]" x xs] by simp
    with Cons False sp show ?thesis by simp
  qed
qed

lemma escapeSlash_id: "slash \<notin> set x \<Longrightarrow> escapeSlash x = x"
  by (induction x) auto

lemma escapeSlash_append: "escapeSlash (a @ b) = escapeSlash a @ escapeSlash b"
  by (induction a) auto

lemma Join_splice: "Join (A @ (u @ v) # rest) = Join (A @ [u]) @ Join (v # rest)"
proof (induction A)
  case Nil
  show ?case using Join_prefix [of u v rest] by simp
next
  case (Cons a A)
  then show ?case by (simp add: Join_Cons)
qed

lemma SplitN_None: "SplitN p = (a, None) \<Longrightarrow> a = p"
  by (induction p arbitrary: a rule: SplitN.induct) (auto split: if_splits prod.splits)

lemma SplitN_Some: "SplitN p = (a, Some b) \<Longrightarrow> p = a @ [backslash, slash] @ b"
  by (induction p arbitrary: a rule: SplitN.induct) (auto split: if_splits prod.splits)

lemma splitPathToList_total: "\<exists>l. splitPathToList path = Some l \<and> l \<noteq> []"
proof (induction path rule: splitPathToList.induct)
  case (1 path)
  obtain s0 r where sn: "SplitN path = (s0, r)" by (cases "SplitN path")
  show ?case
  proof (cases r)
    case None
    with sn show ?thesis by (simp add: splitPathToList.simps [of path] Split_nonempty)
  next
    case (Some s1)
    with 1 sn obtain m where m: "splitPathToList s1 = Some m" "m \<noteq> []" by force
    with sn Some show ?thesis
      by (simp add: splitPathToList.simps [of path] Split_nonempty Let_def)
  qed
qed

text \<open>
  Claim C5. Splitting a path with \<open>splitPathToList\<close> and joining the segments again
  with the separator, after writing every slash inside a segment back as an escaped
  slash, gives the path that was split. It holds for every path, with or without
  escaped separators, and the split never fails.
\<close>

theorem splitPathToList_rejoin_roundtrip:
  "\<exists>l. splitPathToList path = Some l \<and> rejoinPath l = path"
proof (induction path rule: splitPathToList.induct)
  case (1 path)
  obtain s0 r where sn: "SplitN path = (s0, r)" by (cases "SplitN path")
  show ?case
  proof (cases r)
    case None
    have "map escapeSlash (Split s0) = Split s0"
      by (rule map_idI) (simp add: escapeSlash_id Split_no_slash)
    with sn None SplitN_None [of path s0] show ?thesis
      by (simp add: splitPathToList.simps [of path] rejoinPath_def Join_Split)
  next
    case (Some s1)
    with 1 sn obtain m where m: "splitPathToList s1 = Some m" "rejoinPath m = s1" by force
    from splitPathToList_total [of s1] m have mne: "m \<noteq> []" by auto
    then obtain m0 ms where mm: "m = m0 # ms" by (cases m) auto
    let ?pl = "Split s0"
    have pne: "?pl \<noteq> []" by (rule Split_nonempty)
    have idp: "map escapeSlash ?pl = ?pl"
      by (rule map_idI) (simp add: escapeSlash_id Split_no_slash)
    have lastid: "escapeSlash (last ?pl) = last ?pl"
      using pne Split_no_slash [of "last ?pl" s0] by (simp add: escapeSlash_id)
    have butid: "map escapeSlash (butlast ?pl) = butlast ?pl"
      by (rule map_idI) (blast intro: escapeSlash_id dest: in_set_butlastD Split_no_slash)
    have res: "splitPathToList path = Some (butlast ?pl @ [last ?pl @ [slash] @ m0] @ ms)"
      using sn Some m(1) mm pne by (simp add: splitPathToList.simps [of path] Let_def)
    have "rejoinPath (butlast ?pl @ [last ?pl @ [slash] @ m0] @ ms)
          = Join (butlast ?pl @ (last ?pl @ ([backslash, slash] @ escapeSlash m0)) # map escapeSlash ms)"
      by (simp add: rejoinPath_def escapeSlash_append lastid butid)
    also have "\<dots> = Join (butlast ?pl @ [last ?pl]) @ Join (([backslash, slash] @ escapeSlash m0) # map escapeSlash ms)"
      by (rule Join_splice)
    also have "\<dots> = Join ?pl @ [backslash, slash] @ rejoinPath m"
      using pne Join_prefix [of "[backslash, slash]" "escapeSlash m0" "map escapeSlash ms"]
      by (simp add: mm rejoinPath_def)
    also have "\<dots> = path"
      using SplitN_Some [of path s0 s1] sn Some m(2) by (simp add: Join_Split)
    finally show ?thesis using res by simp
  qed
qed

text \<open>
  The index of \<open>searchTree\<close> stays inside a non-empty path: a folder is compared only
  when \<open>iPathList\<close> is not the last index, and only then is the index moved forward.
\<close>

lemma searchTree_children_in_bounds:
  "iPathList < length pathList \<Longrightarrow>
     searchTree_children coll pathList iPathList mor children \<noteq> Done IndexOutOfRange
     \<and> searchTree_children coll pathList iPathList mor children \<noteq> Done OutOfFuel"
proof (induction children arbitrary: iPathList mor)
  case Nil
  show ?case by simp
next
  case (Cons child children)
  have step: "Suc iPathList < length pathList" if "int iPathList \<noteq> int (length pathList) - 1"
    using that Cons.prems by linarith
  note IH0 = Cons.IH [OF Cons.prems]
  show ?case
    using Cons.prems IH0 Cons.IH [OF step]
    by (auto split: sum.splits)
qed

lemma searchTree_children_progress:
  "iPathList < length pathList \<Longrightarrow>
     searchTree_children coll pathList iPathList mor children = Continue iPathList' mor' \<Longrightarrow>
     iPathList' < length pathList \<and> iPathList \<le> iPathList'
     \<and> (iPathList' = iPathList \<longrightarrow> mor' = mor)"
proof (induction children arbitrary: iPathList mor)
  case Nil
  then show ?case by simp
next
  case (Cons child children)
  have step: "Suc iPathList < length pathList" if "int iPathList \<noteq> int (length pathList) - 1"
    using that Cons.prems(1) by linarith
  note IH0 = Cons.IH [OF Cons.prems(1)]
  note IH1 = Cons.IH [OF step]
  from Cons.prems(2) show ?case
    by (auto split: sum.splits if_splits dest!: IH0 IH1)
qed

lemma searchTree_loop_safe:
  "iPathList < length pathList \<Longrightarrow> length pathList - iPathList \<le> fuel \<Longrightarrow>
     searchTree_loop fuel coll pathList name iPathList mor \<noteq> IndexOutOfRange
     \<and> searchTree_loop fuel coll pathList name iPathList mor \<noteq> OutOfFuel"
proof (induction fuel arbitrary: iPathList mor)
  case 0
  then show ?case by simp
next
  case (Suc fuel)
  show ?case
  proof (cases mor)
    case None
    then show ?thesis by simp
  next
    case (Some m)
    show ?thesis
    proof (cases "retrieveChildEntity coll m")
      case (Inl err)
      with Some show ?thesis by simp
    next
      case (Inr ChildEntity)
      show ?thesis
      proof (cases "searchTree_children coll pathList iPathList None ChildEntity")
        case (Done result)
        with searchTree_children_in_bounds [OF Suc.prems(1), of coll None ChildEntity] Some Inr
        show ?thesis by auto
      next
        case (Continue i' mor')
        show ?thesis
        proof (cases mor')
          case None
          with Some Inr Continue show ?thesis by simp
        next
          case (Some ref)
          from searchTree_children_progress [OF Suc.prems(1) Continue] Some
          have "i' < length pathList" "iPathList < i'" by auto
          with Suc.prems(2) have "length pathList - i' \<le> fuel" by simp
          from Suc.IH [OF \<open>i' < length pathList\<close> this, of "Some ref"]
          show ?thesis using \<open>mor = Some m\<close> Inr Continue Some by simp
        qed
      qed
    qed
  qed
qed

lemma searchTree_no_panic:
  "searchTree coll mor name \<noteq> IndexOutOfRange \<and> searchTree coll mor name \<noteq> OutOfFuel"
proof -
  obtain l where l: "splitPathToList name = Some l" "l \<noteq> []"
    using splitPathToList_total [of name] by blast
  then have "0 < length l" by simp
  from searchTree_loop_safe [OF this, of "length l" coll name mor] l(1)
  show ?thesis by (simp add: searchTree_def)
qed

text \<open>
  Claim C10. For every input string, the empty one and those made of separators or
  escapes only included, \<open>splitPathToList\<close> terminates (it is a total function whose
  recursion is well-founded on the length of the path), does not run into an index out
  of range, and returns at least one segment. So the indices \<open>0\<close> and \<open>len - 1\<close> are
  inside the list, and \<open>searchTree\<close>, on every inventory and every starting folder,
  never indexes \<open>pathList\<close> out of range; its outer loop ends within as many rounds
  as the path has segments.
\<close>

theorem splitPathToList_returns_nonempty:
  "(\<exists>l. splitPathToList path = Some l \<and> 0 < length l \<and> length l - 1 < length l)
   \<and> searchTree coll mor path \<noteq> IndexOutOfRange
   \<and> searchTree coll mor path \<noteq> OutOfFuel"
proof -
  obtain l where l: "splitPathToList path = Some l" "l \<noteq> []"
    using splitPathToList_total [of path] by blast
  from l(2) have "0 < length l \<and> length l - 1 < length l"
    by (cases l) simp_all
  with l(1) have "\<exists>l. splitPathToList path = Some l \<and> 0 < length l \<and> length l - 1 < length l"
    by blast
  with searchTree_no_panic [of coll mor path] show ?thesis by blast
qed

section \<open>Properties of host validation\<close>

lemma hostNetworkNames_sound:
  "hostNetworkNames c N nws = Inr M \<Longrightarrow> name \<in> M \<Longrightarrow> name \<notin> N
     \<Longrightarrow> \<exists>nw \<in> set nws. getNetworkName c nw = Inr name"
proof (induction nws arbitrary: N)
  case Nil
  then show ?case by simp
next
  case (Cons nw nws)
  from Cons.prems(1) obtain n where n: "getNetworkName c nw = Inr n" "n \<noteq> []"
    and rest: "hostNetworkNames c (insert n N) nws = Inr M"
    by (auto split: sum.splits if_splits)
  show ?case
  proof (cases "name = n")
    case True
    with n show ?thesis by simp
  next
    case False
    with Cons.prems(3) have "name \<notin> insert n N" by simp
    from Cons.IH [OF rest Cons.prems(2) this] show ?thesis by auto
  qed
qed

lemma networksValid_iff: "networksValid M vs \<longleftrightarrow> (\<forall>v \<in> set vs. Name v \<in> M)"
  by (induction vs) auto

lemma datastoreValid_sound:
  "datastoreValid c d dss = Inr True \<Longrightarrow> \<exists>ds \<in> set dss. retrieveDatastoreName c ds = Inr d"
  by (induction dss) (auto split: sum.splits if_splits)

lemma validateHost_sound:
  assumes "validateHost c vm hsMor = Inr True"
  shows "hostMeetsRequest c vm hsMor"
proof -
  from assms obtain hsMo where hs: "retrieveHostSystem c hsMor = Inr hsMo"
    by (auto simp: validateHost_def split: sum.splits)
  from assms hs obtain M where M: "hostNetworkNames c {} (Network hsMo) = Inr M"
    by (auto simp: validateHost_def split: sum.splits)
  from assms hs M have nw: "networksValid M (Networks vm)"
    by (auto simp: validateHost_def Let_def split: sum.splits if_splits)
  have a: "list_all (\<lambda>v. list_ex (\<lambda>nw. getNetworkName c nw = Inr (Name v)) (Network hsMo))
            (Networks vm)"
    unfolding list_all_iff list_ex_iff
  proof
    fix v assume "v \<in> set (Networks vm)"
    with nw have "Name v \<in> M" by (simp add: networksValid_iff)
    from hostNetworkNames_sound [OF M this] show "\<exists>nw \<in> set (Network hsMo). getNetworkName c nw = Inr (Name v)"
      by simp
  qed
  have b: "datastore vm = [] \<or>
           list_ex (\<lambda>ds. retrieveDatastoreName c ds = Inr (datastore vm)) (Datastore hsMo)"
  proof (cases "datastore vm = []")
    case True
    then show ?thesis by simp
  next
    case False
    with assms hs M have "datastoreValid c (datastore vm) (Datastore hsMo) = Inr True"
      by (auto simp: validateHost_def Let_def split: sum.splits if_splits)
    from datastoreValid_sound [OF this] show ?thesis by (simp add: list_ex_iff)
  qed
  from hs a b show ?thesis by (simp add: hostMeetsRequest_def)
qed

lemma validateHost_skips_datastore:
  assumes "datastore vm = []"
  shows "validateHost (c\<lparr>retrieveDatastoreName := f\<rparr>) vm hsMor = validateHost c vm hsMor"
proof -
  have g: "getNetworkName (c\<lparr>retrieveDatastoreName := f\<rparr>) = getNetworkName c"
    by (rule ext) (simp add: getNetworkName_def)
  have h: "hostNetworkNames (c\<lparr>retrieveDatastoreName := f\<rparr>) N nws = hostNetworkNames c N nws" for N nws
    by (induction nws arbitrary: N) (simp_all add: g split: sum.splits)
  from assms show ?thesis by (simp add: validateHost_def h Let_def split: sum.splits)
qed

lemma filterHosts_loop_eq:
  "filterHosts_loop c vm acc hosts = Inr fs \<Longrightarrow>
     fs = acc @ filter (\<lambda>h. validateHost c vm h = Inr True) hosts"
proof (induction hosts arbitrary: acc)
  case Nil
  then show ?case by simp
next
  case (Cons h hosts)
  from Cons.prems obtain valid where v: "validateHost c vm h = Inr valid"
    and rest: "filterHosts_loop c vm (if valid then acc @ [h] else acc) hosts = Inr fs"
    by (auto split: sum.splits)
  from Cons.IH [OF rest] v show ?case by (cases valid) simp_all
qed

lemma filterHosts_eq:
  "filterHosts c vm hosts = Inr fs \<Longrightarrow> fs = filter (\<lambda>h. validateHost c vm h = Inr True) hosts"
  using filterHosts_loop_eq [of c vm "[]" hosts fs] by (simp add: filterHosts_def)

text \<open>
  Claim C3. \<open>validateHost\<close> returns true only for a host that has every requested
  network among its networks and, when a datastore has been chosen (\<open>vm.datastore\<close>
  is not empty), that datastore among its datastores. When no datastore is chosen the
  datastores are not looked at: the result does not depend on what retrieving a
  datastore name gives. Hence every host that \<open>filterHosts\<close> returns, and the host
  picked among them for any random number, is a host of the cluster that meets the
  request; a host lacking a requested network or the chosen datastore is never picked.
\<close>

theorem validateHost_filterHosts_sound:
  "(validateHost c vm hsMor = Inr True \<longrightarrow> hostMeetsRequest c vm hsMor) \<and>
   (datastore vm = [] \<longrightarrow>
      validateHost (c\<lparr>retrieveDatastoreName := f\<rparr>) vm hsMor = validateHost c vm hsMor) \<and>
   (filterHosts c vm hosts = Inr filteredHosts \<longrightarrow>
      (\<forall>h \<in> set filteredHosts. h \<in> set hosts \<and> hostMeetsRequest c vm h)) \<and>
   (selectClusterHost c vm hosts n = Inr host \<longrightarrow>
      host \<in> set hosts \<and> hostMeetsRequest c vm host)"
proof (intro conjI impI)
  assume "validateHost c vm hsMor = Inr True"
  then show "hostMeetsRequest c vm hsMor" by (rule validateHost_sound)
next
  assume "datastore vm = []"
  then show "validateHost (c\<lparr>retrieveDatastoreName := f\<rparr>) vm hsMor = validateHost c vm hsMor"
    by (rule validateHost_skips_datastore)
next
  assume "filterHosts c vm hosts = Inr filteredHosts"
  from filterHosts_eq [OF this]
  show "\<forall>h \<in> set filteredHosts. h \<in> set hosts \<and> hostMeetsRequest c vm h"
    by (auto intro: validateHost_sound)
next
  assume sel: "selectClusterHost c vm hosts n = Inr host"
  then obtain fs where fs: "filterHosts c vm hosts = Inr fs" and n: "n < length fs" "host = fs ! n"
    by (auto simp: selectClusterHost_def split: sum.splits if_splits)
  from n have "host \<in> set fs" by simp
  with filterHosts_eq [OF fs] have "host \<in> set hosts" "validateHost c vm host = Inr True" by auto
  then show "host \<in> set hosts" "hostMeetsRequest c vm host"
    by (auto intro: validateHost_sound)
qed

lemmas example_defs = example_collector_def example_vm_def example_host1_def example_host2_def
  validateHost_def getNetworkName_def filterHosts_def selectClusterHost_def

theorem validateHost_filterHosts_sound_witness:
  "validateHost example_collector example_vm example_host1 = Inr True
   \<and> hostMeetsRequest example_collector example_vm example_host1
   \<and> datastore (example_vm\<lparr>datastore := []\<rparr>) = []
   \<and> validateHost (example_collector\<lparr>retrieveDatastoreName := (\<lambda>m. Inl Panic)\<rparr>)
         (example_vm\<lparr>datastore := []\<rparr>) example_host1
       = validateHost example_collector (example_vm\<lparr>datastore := []\<rparr>) example_host1
   \<and> filterHosts example_collector example_vm [example_host1, example_host2] = Inr [example_host1]
   \<and> validateHost example_collector example_vm example_host2 = Inr False
   \<and> selectClusterHost example_collector example_vm [example_host1, example_host2] 0
       = Inr example_host1
   \<and> example_host1 \<in> set [example_host1, example_host2]"
proof -
  have v1: "validateHost example_collector example_vm example_host1 = Inr True"
    by (simp add: example_defs)
  have v2: "validateHost example_collector example_vm example_host2 = Inr False"
    by (simp add: example_defs)
  have d: "datastore (example_vm\<lparr>datastore := []\<rparr>) = []" by simp
  have f: "filterHosts example_collector example_vm [example_host1, example_host2] = Inr [example_host1]"
    by (simp add: filterHosts_def v1 v2)
  have s: "selectClusterHost example_collector example_vm [example_host1, example_host2] 0
       = Inr example_host1"
    by (simp add: selectClusterHost_def f)
  note a = validateHost_filterHosts_sound [of example_collector example_vm example_host1
            _ "[example_host1, example_host2]" "[example_host1]" 0 example_host1]
  note b = validateHost_filterHosts_sound [of example_collector "example_vm\<lparr>datastore := []\<rparr>"
            example_host1 "\<lambda>m. Inl Panic" "[]" "[]" 0 example_host1]
  from a s have m: "hostMeetsRequest example_collector example_vm example_host1" by blast
  from a f have "\<forall>h \<in> set [example_host1].
      h \<in> set [example_host1, example_host2] \<and> hostMeetsRequest example_collector example_vm h"
    by blast
  then have i: "example_host1 \<in> set [example_host1, example_host2]" by simp
  from a v1 have "hostMeetsRequest example_collector example_vm example_host1" by blast
  from b d have e: "validateHost (example_collector\<lparr>retrieveDatastoreName := (\<lambda>m. Inl Panic)\<rparr>)
         (example_vm\<lparr>datastore := []\<rparr>) example_host1
       = validateHost example_collector (example_vm\<lparr>datastore := []\<rparr>) example_host1" by blast
  from v1 v2 m d e f s i show ?thesis by blast
qed

section \<open>Properties of the question responder\<close>















section \<open>Properties of the lifecycle operations\<close>

lemma waitForGuestStatus_func_sound:
  "waitForGuestStatus_func status pc = Inr True \<Longrightarrow>
     \<exists>c \<in> set pc. Name' c = GUEST_HEART_BEAT_STATUS
        \<and> (\<exists>ps. Val c = ManagedEntityStatusValue ps \<and> statusInMask status ps)"
proof (induction pc)
  case Nil
  then show ?case by simp
next
  case (Cons c pc)
  show ?case
  proof (cases "Name' c = GUEST_HEART_BEAT_STATUS")
    case False
    with Cons show ?thesis by simp
  next
    case True
    show ?thesis
    proof (cases "Val c")
      case NilValue
      with True Cons show ?thesis by simp
    next
      case OtherValue
      with True Cons.prems show ?thesis by simp
    next
      case (ManagedEntityStatusValue ps)
      show ?thesis
      proof (cases "statusInMask status ps")
        case True
        with \<open>Name' c = GUEST_HEART_BEAT_STATUS\<close> ManagedEntityStatusValue show ?thesis by auto
      next
        case False
        with \<open>Name' c = GUEST_HEART_BEAT_STATUS\<close> ManagedEntityStatusValue Cons.prems
        have "waitForGuestStatus_func status pc = Inr True"
          by (auto simp: statusInMask_def split: if_splits)
        with Cons.IH show ?thesis by auto
      qed
    qed
  qed
qed

lemma waitForGuestStatus_func_first:
  "Name' c = GUEST_HEART_BEAT_STATUS \<Longrightarrow> Val c = ManagedEntityStatusValue ps
     \<Longrightarrow> statusInMask status ps \<Longrightarrow> waitForGuestStatus_func status (c # pc) = Inr True"
  by (auto simp: statusInMask_def)

lemma Wait_returns_at_first_accept:
  "Wait f updates = Some (None, n) \<Longrightarrow>
    0 < n \<and> n \<le> length updates
    \<and> (\<exists>pc. updates ! (n - 1) = Update pc \<and> f pc = Inr True)
    \<and> (\<forall>i < n - 1. \<exists>pc. updates ! i = Update pc \<and> f pc = Inr False)"
proof (induction updates arbitrary: n)
  case Nil
  then show ?case by simp
next
  case (Cons u updates)
  show ?case
  proof (cases u)
    case (WaitFailure err)
    with Cons.prems show ?thesis by simp
  next
    case (Update pc)
    show ?thesis
    proof (cases "f pc")
      case (Inl err)
      with Update Cons.prems show ?thesis by simp
    next
      case (Inr d)
      show ?thesis
      proof (cases d)
        case True
        with Update Inr Cons.prems show ?thesis by simp
      next
        case False
        with Update Inr Cons.prems obtain m where m: "Wait f updates = Some (None, m)" "n = Suc m"
          by (auto split: option.splits)
        from Cons.IH [OF m(1)] have IH: "0 < m" "m \<le> length updates"
          "\<exists>pc. updates ! (m - 1) = Update pc \<and> f pc = Inr True"
          "\<forall>i < m - 1. \<exists>pc. updates ! i = Update pc \<and> f pc = Inr False"
          by simp_all
        have a: "0 < n \<and> n \<le> length (u # updates)" using m(2) IH(1,2) by simp
        have b: "\<exists>pc. (u # updates) ! (n - 1) = Update pc \<and> f pc = Inr True"
          using m(2) IH(1,3) by (cases m) simp_all
        have c: "\<forall>i < n - 1. \<exists>pc. (u # updates) ! i = Update pc \<and> f pc = Inr False"
        proof (intro allI impI)
          fix i assume i: "i < n - 1"
          show "\<exists>pc. (u # updates) ! i = Update pc \<and> f pc = Inr False"
          proof (cases i)
            case 0
            with Update Inr False show ?thesis by simp
          next
            case (Suc j)
            with i m(2) have "j < m - 1" by simp
            with IH(4) Suc show ?thesis by simp
          qed
        qed
        from a b c show ?thesis by blast
      qed
    qed
  qed
qed

text \<open>
  Claim C6. The function given to the wait returns true only when some reported
  heartbeat status has its bit (green, yellow, gray, red) set in the mask; a status
  whose bit is not set is not accepted. When the first report holds a status that the
  mask accepts, the wait returns at that report, whatever follows; and whenever the
  wait returns without error it returns at the first report that the function accepts.
\<close>

theorem waitForGuestStatus_mask:
  "(waitForGuestStatus_func status pc = Inr True \<longrightarrow>
      (\<exists>c \<in> set pc. Name' c = GUEST_HEART_BEAT_STATUS
         \<and> (\<exists>ps. Val c = ManagedEntityStatusValue ps \<and> statusInMask status ps)))
   \<and> (\<not> statusInMask status ps \<longrightarrow>
      waitForGuestStatus_func status
        [\<lparr>Name' = GUEST_HEART_BEAT_STATUS, Val = ManagedEntityStatusValue ps\<rparr>] = Inr False)
   \<and> (statusInMask status ps \<longrightarrow>
      waitForGuestStatus status
        (Update (\<lparr>Name' = GUEST_HEART_BEAT_STATUS, Val = ManagedEntityStatusValue ps\<rparr> # pc)
           # updates) = Some (None, 1))
   \<and> (waitForGuestStatus_func status pc = Inr True \<longrightarrow>
      waitForGuestStatus status (Update pc # updates) = Some (None, 1))
   \<and> (waitForGuestStatus status updates = Some (None, n) \<longrightarrow>
      0 < n \<and> n \<le> length updates
      \<and> (\<exists>pc. updates ! (n - 1) = Update pc \<and> waitForGuestStatus_func status pc = Inr True)
      \<and> (\<forall>i < n - 1. \<exists>pc. updates ! i = Update pc \<and> waitForGuestStatus_func status pc = Inr False))"
proof -
  have a: "waitForGuestStatus_func status pc = Inr True \<longrightarrow>
      (\<exists>c \<in> set pc. Name' c = GUEST_HEART_BEAT_STATUS
         \<and> (\<exists>ps. Val c = ManagedEntityStatusValue ps \<and> statusInMask status ps))"
    using waitForGuestStatus_func_sound by blast
  have b: "\<not> statusInMask status ps \<longrightarrow>
      waitForGuestStatus_func status
        [\<lparr>Name' = GUEST_HEART_BEAT_STATUS, Val = ManagedEntityStatusValue ps\<rparr>] = Inr False"
    by (auto simp: statusInMask_def)
  have c: "statusInMask status ps \<longrightarrow>
      waitForGuestStatus status
        (Update (\<lparr>Name' = GUEST_HEART_BEAT_STATUS, Val = ManagedEntityStatusValue ps\<rparr> # pc)
           # updates) = Some (None, 1)"
  proof
    assume "statusInMask status ps"
    then have "waitForGuestStatus_func status
        (\<lparr>Name' = GUEST_HEART_BEAT_STATUS, Val = ManagedEntityStatusValue ps\<rparr> # pc) = Inr True"
      by (intro waitForGuestStatus_func_first) simp_all
    then show "waitForGuestStatus status
        (Update (\<lparr>Name' = GUEST_HEART_BEAT_STATUS, Val = ManagedEntityStatusValue ps\<rparr> # pc)
           # updates) = Some (None, 1)"
      by (simp add: waitForGuestStatus_def)
  qed
  have d: "waitForGuestStatus_func status pc = Inr True \<longrightarrow>
      waitForGuestStatus status (Update pc # updates) = Some (None, 1)"
    by (simp add: waitForGuestStatus_def)
  have e: "waitForGuestStatus status updates = Some (None, n) \<longrightarrow>
      0 < n \<and> n \<le> length updates
      \<and> (\<exists>pc. updates ! (n - 1) = Update pc \<and> waitForGuestStatus_func status pc = Inr True)
      \<and> (\<forall>i < n - 1. \<exists>pc. updates ! i = Update pc \<and> waitForGuestStatus_func status pc = Inr False)"
    unfolding waitForGuestStatus_def by (rule impI) (rule Wait_returns_at_first_accept)
  from a b c d e show ?thesis by (intro conjI)
qed

lemmas heartbeat_defs = GUEST_HEART_BEAT_STATUS_def GREEN_HEART_BEAT_def YELLOW_HEART_BEAT_def
  GRAY_HEART_BEAT_def RED_HEART_BEAT_def ManagedEntityStatusGray_def ManagedEntityStatusGreen_def
  ManagedEntityStatusYellow_def ManagedEntityStatusRed_def example_green_def example_gray_def

theorem waitForGuestStatus_mask_witness:
  "waitForGuestStatus_func (GREEN_HEART_BEAT OR YELLOW_HEART_BEAT) [example_gray, example_green]
     = Inr True
   \<and> statusInMask (GREEN_HEART_BEAT OR YELLOW_HEART_BEAT) ''green''
   \<and> \<not> statusInMask (GREEN_HEART_BEAT OR YELLOW_HEART_BEAT) ''gray''
   \<and> waitForGuestStatus_func (GREEN_HEART_BEAT OR YELLOW_HEART_BEAT) [example_gray] = Inr False
   \<and> waitForGuestStatus (GREEN_HEART_BEAT OR YELLOW_HEART_BEAT)
        [Update [example_green], Update [example_gray]] = Some (None, 1)
   \<and> waitForGuestStatus (GREEN_HEART_BEAT OR YELLOW_HEART_BEAT)
        [Update [example_gray, example_green], Update [example_gray]] = Some (None, 1)
   \<and> waitForGuestStatus (GREEN_HEART_BEAT OR YELLOW_HEART_BEAT)
        [Update [example_gray], Update [example_green], Update [example_gray]] = Some (None, 2)
   \<and> (\<exists>c \<in> set [example_gray, example_green]. Name' c = GUEST_HEART_BEAT_STATUS
         \<and> (\<exists>ps. Val c = ManagedEntityStatusValue ps
                \<and> statusInMask (GREEN_HEART_BEAT OR YELLOW_HEART_BEAT) ps))
   \<and> (\<exists>pc. [Update [example_gray], Update [example_green], Update [example_gray]] ! (2 - 1)
           = Update pc
         \<and> waitForGuestStatus_func (GREEN_HEART_BEAT OR YELLOW_HEART_BEAT) pc = Inr True)"
proof -
  let ?status = "GREEN_HEART_BEAT OR YELLOW_HEART_BEAT"
  have f: "waitForGuestStatus_func ?status [example_gray, example_green] = Inr True"
    by (simp add: heartbeat_defs)
  have g: "statusInMask ?status ''green''"
    by (simp add: statusInMask_def heartbeat_defs)
  have h: "\<not> statusInMask ?status ''gray''"
    by (simp add: statusInMask_def heartbeat_defs)
  have w: "waitForGuestStatus ?status
        [Update [example_gray], Update [example_green], Update [example_gray]] = Some (None, 2)"
    by (simp add: waitForGuestStatus_def heartbeat_defs)
  note t = waitForGuestStatus_mask [where status = ?status and ps = "''gray''" and pc = "[]"
      and updates = "[Update [example_gray]]"]
  note u = waitForGuestStatus_mask [where status = ?status and ps = "''green''" and pc = "[]"
      and updates = "[Update [example_gray]]"]
  from t h have a: "waitForGuestStatus_func ?status [example_gray] = Inr False"
    by (simp add: example_gray_def GUEST_HEART_BEAT_STATUS_def)
  from u g have b: "waitForGuestStatus ?status [Update [example_green], Update [example_gray]]
      = Some (None, 1)"
    by (simp add: example_green_def GUEST_HEART_BEAT_STATUS_def)
  note v = waitForGuestStatus_mask [where status = ?status and ps = "''green''"
      and pc = "[example_gray, example_green]"
      and updates = "[Update [example_gray], Update [example_green], Update [example_gray]]"
      and n = 2]
  note v' = waitForGuestStatus_mask [where status = ?status and ps = "''green''"
      and pc = "[example_gray, example_green]" and updates = "[Update [example_gray]]"]
  from v f have c: "\<exists>c \<in> set [example_gray, example_green]. Name' c = GUEST_HEART_BEAT_STATUS
         \<and> (\<exists>ps. Val c = ManagedEntityStatusValue ps \<and> statusInMask ?status ps)"
    by blast
  from v' f have d: "waitForGuestStatus ?status
      [Update [example_gray, example_green], Update [example_gray]] = Some (None, 1)"
    by blast
  from v w have e: "\<exists>pc. [Update [example_gray], Update [example_green], Update [example_gray]]
        ! (2 - 1) = Update pc \<and> waitForGuestStatus_func ?status pc = Inr True"
    by blast
  from f g h a b w c d e show ?thesis by blast
qed

text \<open>
  Claim C7. \<open>isTaskInProgress\<close> returns true for an empty list of recent tasks, and
  in general returns true exactly when no task of the list that can be retrieved is
  queued or running: false means that some task is queued or running, so true means
  that no task is in progress.
\<close>

theorem isTaskInProgress_polarity:
  "isTaskInProgress retrieveTaskInfo [] = True
   \<and> (isTaskInProgress retrieveTaskInfo RecentTask \<longleftrightarrow>
        \<not> list_ex (\<lambda>task. retrieveTaskInfo task = Inr TaskInfoStateQueued
                          \<or> retrieveTaskInfo task = Inr TaskInfoStateRunning) RecentTask)"
proof -
  have "isTaskInProgress retrieveTaskInfo RecentTask \<longleftrightarrow>
        \<not> list_ex (\<lambda>task. retrieveTaskInfo task = Inr TaskInfoStateQueued
                          \<or> retrieveTaskInfo task = Inr TaskInfoStateRunning) RecentTask"
    by (induction RecentTask) (auto split: sum.splits)
  then show ?thesis by simp
qed

text \<open>
  Claim C8. When the guest state that \<open>findVM\<close> reports is \<open>shuttingdown\<close> or
  \<open>resetting\<close>, \<open>start\<close> returns \<open>ErrorVMPowerStateChanging\<close> and has made no call
  but \<open>findVM\<close>: no power-on task is submitted. For every other state its next call
  submits the power-on task and, when the submission gives a task, the call after that
  waits for the result of the task.
\<close>

theorem start_power_state:
  "(findVM_result client = Inr vmMo
      \<and> (GuestState vmMo = ''shuttingdown'' \<or> GuestState vmMo = ''resetting'')
    \<longrightarrow> start client vm = (Some ErrorVMPowerStateChanging, [CallFindVM])
        \<and> CallPowerOn \<notin> set (snd (start client vm)))
   \<and> (findVM_result client = Inr vmMo
      \<and> GuestState vmMo \<noteq> ''shuttingdown'' \<and> GuestState vmMo \<noteq> ''resetting''
    \<longrightarrow> take 2 (snd (start client vm)) = [CallFindVM, CallPowerOn]
        \<and> (PowerOn_result client = None
           \<longrightarrow> take 3 (snd (start client vm)) = [CallFindVM, CallPowerOn, CallWaitForResult]))"
  by (auto simp: start_def Let_def split: sum.splits option.splits)

theorem start_power_state_witness:
  "findVM_result (example_start_client\<lparr>findVM_result := Inr \<lparr>GuestState = ''resetting''\<rparr>\<rparr>)
     = Inr \<lparr>GuestState = ''resetting''\<rparr>
   \<and> start (example_start_client\<lparr>findVM_result := Inr \<lparr>GuestState = ''resetting''\<rparr>\<rparr>) example_vm
     = (Some ErrorVMPowerStateChanging, [CallFindVM])
   \<and> findVM_result example_start_client = Inr \<lparr>GuestState = ''notRunning''\<rparr>
   \<and> PowerOn_result example_start_client = None
   \<and> take 3 (snd (start example_start_client example_vm))
     = [CallFindVM, CallPowerOn, CallWaitForResult]
   \<and> start example_start_client example_vm
     = (None, [CallFindVM, CallPowerOn, CallWaitForResult, CallWaitForIP])"
proof -
  let ?busy = "example_start_client\<lparr>findVM_result := Inr \<lparr>GuestState = ''resetting''\<rparr>\<rparr>"
  have a: "findVM_result ?busy = Inr \<lparr>GuestState = ''resetting''\<rparr>" by simp
  have b: "findVM_result example_start_client = Inr \<lparr>GuestState = ''notRunning''\<rparr>"
    by (simp add: example_start_client_def)
  have c: "PowerOn_result example_start_client = None"
    by (simp add: example_start_client_def)
  from start_power_state [where client = ?busy and vmMo = "\<lparr>GuestState = ''resetting''\<rparr>"
      and vm = example_vm] a
  have d: "start ?busy example_vm = (Some ErrorVMPowerStateChanging, [CallFindVM])" by simp
  from start_power_state [where client = example_start_client
      and vmMo = "\<lparr>GuestState = ''notRunning''\<rparr>" and vm = example_vm] b c
  have e: "take 3 (snd (start example_start_client example_vm))
     = [CallFindVM, CallPowerOn, CallWaitForResult]" by simp
  have f: "start example_start_client example_vm
     = (None, [CallFindVM, CallPowerOn, CallWaitForResult, CallWaitForIP])"
    by (simp add: start_def example_start_client_def example_vm_def)
  from a b c d e f show ?thesis by blast
qed



section \<open>Properties of the disk reconciliation\<close>

text \<open>
  What the reconciliation does for the disks of the template: when it succeeds, every
  disk whose file name is not requested has a removal entry; a disk whose requested
  size is below its capacity makes it fail; and the list has one entry for every
  virtual disk, also for a disk whose size is unchanged.
\<close>

lemma resizeAndDeleteVols_loop_keeps:
  "resizeAndDeleteVols_loop disks specs devices = Inr specs' \<Longrightarrow> \<exists>more. specs' = specs @ more"
proof (induction devices arbitrary: specs)
  case Nil
  then show ?case by simp
next
  case (Cons device devices)
  from Cons.prems obtain mid where mid: "resizeAndDeleteVol disks specs device = Inr mid"
    and rest: "resizeAndDeleteVols_loop disks mid devices = Inr specs'"
    by (auto split: sum.splits)
  from mid have "\<exists>one. mid = specs @ one"
    by (auto simp: resizeAndDeleteVol_def Let_def
        split: VirtualDevice.splits option.splits if_splits)
  with Cons.IH [OF rest] show ?case by auto
qed

lemma resizeAndDeleteVols_loop_removes:
  assumes "resizeAndDeleteVols_loop disks specs devices = Inr specs'"
    and "VirtualDiskDevice editdisk \<in> set devices"
    and "Backing editdisk = Some fileName"
    and "findByVirtualDeviceFileName disks fileName = None"
  shows "Some \<lparr>Operation = VirtualDeviceConfigSpecOperationRemove, Device = editdisk\<rparr> \<in> set specs'"
  using assms(1,2)
proof (induction devices arbitrary: specs)
  case Nil
  then show ?case by simp
next
  case (Cons device devices)
  from Cons.prems(1) obtain mid where mid: "resizeAndDeleteVol disks specs device = Inr mid"
    and rest: "resizeAndDeleteVols_loop disks mid devices = Inr specs'"
    by (auto split: sum.splits)
  show ?case
  proof (cases "device = VirtualDiskDevice editdisk")
    case True
    with mid assms(3,4)
    have "mid = specs @ [Some \<lparr>Operation = VirtualDeviceConfigSpecOperationRemove,
                               Device = editdisk\<rparr>]"
      by (simp add: resizeAndDeleteVol_def)
    with resizeAndDeleteVols_loop_keeps [OF rest] show ?thesis by auto
  next
    case False
    with Cons.prems(2) have "VirtualDiskDevice editdisk \<in> set devices" by simp
    from Cons.IH [OF rest this] show ?thesis .
  qed
qed

lemma resizeAndDeleteVols_removes_unmatched:
  "resizeAndDeleteVols devices disks = Inr deviceSpecs
   \<Longrightarrow> VirtualDiskDevice editdisk \<in> set devices
   \<Longrightarrow> Backing editdisk = Some fileName
   \<Longrightarrow> findByVirtualDeviceFileName disks fileName = None
   \<Longrightarrow> Some \<lparr>Operation = VirtualDeviceConfigSpecOperationRemove, Device = editdisk\<rparr>
         \<in> set deviceSpecs"
  unfolding resizeAndDeleteVols_def by (rule resizeAndDeleteVols_loop_removes)

lemma resizeAndDeleteVols_loop_shrink:
  assumes "VirtualDiskDevice editdisk \<in> set devices"
    and "Backing editdisk = Some fileName"
    and "findByVirtualDeviceFileName disks fileName = Some disk"
    and "sint (Size disk * 1024 * 1024) < sint (CapacityInKB editdisk)"
  shows "\<exists>err. resizeAndDeleteVols_loop disks specs devices = Inl err"
  using assms(1)
proof (induction devices arbitrary: specs)
  case Nil
  then show ?case by simp
next
  case (Cons device devices)
  show ?case
  proof (cases "resizeAndDeleteVol disks specs device")
    case (Inl err)
    then show ?thesis by simp
  next
    case (Inr mid)
    with assms(2-4) have "device \<noteq> VirtualDiskDevice editdisk"
      by (auto simp: resizeAndDeleteVol_def Let_def)
    with Cons.prems have "VirtualDiskDevice editdisk \<in> set devices" by simp
    from Cons.IH [OF this, of mid] Inr show ?thesis by simp
  qed
qed

lemma resizeAndDeleteVols_shrink_fails:
  "VirtualDiskDevice editdisk \<in> set devices
   \<Longrightarrow> Backing editdisk = Some fileName
   \<Longrightarrow> findByVirtualDeviceFileName disks fileName = Some disk
   \<Longrightarrow> sint (Size disk * 1024 * 1024) < sint (CapacityInKB editdisk)
   \<Longrightarrow> \<exists>err. resizeAndDeleteVols devices disks = Inl err"
  unfolding resizeAndDeleteVols_def by (rule resizeAndDeleteVols_loop_shrink)

lemma resizeAndDeleteVols_errors:
  "resizeAndDeleteVols_loop disks specs devices = Inl err
   \<Longrightarrow> err = Error ''error : Shrinking Virtual Disks is not supported'' \<or> err = Panic"
proof (induction devices arbitrary: specs)
  case Nil
  then show ?case by simp
next
  case (Cons device devices)
  show ?case
  proof (cases "resizeAndDeleteVol disks specs device")
    case (Inl e)
    with Cons.prems have "err = e" by simp
    with Inl show ?thesis
      by (auto simp: resizeAndDeleteVol_def Let_def
          split: VirtualDevice.splits option.splits if_splits)
  next
    case (Inr mid)
    with Cons show ?thesis by simp
  qed
qed

lemma resizeAndDeleteVols_loop_length:
  "resizeAndDeleteVols_loop disks specs devices = Inr specs'
   \<Longrightarrow> length specs' = length specs + length (filter (\<lambda>d. d \<noteq> OtherDevice) devices)"
proof (induction devices arbitrary: specs)
  case Nil
  then show ?case by simp
next
  case (Cons device devices)
  from Cons.prems obtain mid where mid: "resizeAndDeleteVol disks specs device = Inr mid"
    and rest: "resizeAndDeleteVols_loop disks mid devices = Inr specs'"
    by (auto split: sum.splits)
  from mid have "length mid = length specs + (if device \<noteq> OtherDevice then 1 else 0)"
    by (auto simp: resizeAndDeleteVol_def Let_def
        split: VirtualDevice.splits option.splits if_splits)
  with Cons.IH [OF rest] show ?case by simp
qed

lemma resizeAndDeleteVols_one_entry_per_disk:
  "resizeAndDeleteVols devices disks = Inr deviceSpecs
   \<Longrightarrow> length deviceSpecs = length (filter (\<lambda>d. d \<noteq> OtherDevice) devices)"
  using resizeAndDeleteVols_loop_length [of disks "[]" devices deviceSpecs]
  by (simp add: resizeAndDeleteVols_def)

text \<open>
  Claim C1 at a template with one disk of 1048576 KB and a requested disk of the same
  file name and of size 1 (1048576 KB): the size is equal to the capacity, and the list
  returned has one entry for the disk, the nil specification.
\<close>

theorem resizeAndDeleteVols_equal_size_entry:
  "resizeAndDeleteVols
     [VirtualDiskDevice \<lparr>Backing = Some ''[ds1] tmpl/disk0.vmdk'', CapacityInKB = 1048576\<rparr>]
     [\<lparr>Size = 1, DiskFile = ''[ds1] tmpl/disk0.vmdk''\<rparr>]
   = Inr [None]"
  by (simp add: resizeAndDeleteVols_def resizeAndDeleteVol_def)

end
